theory Spec2Isabelle
  imports Complex_Main "HOL-Library.AList"
begin

section \<open>Characters and strings\<close>

text \<open>
  A Python \<open>str\<close> is a sequence of code points.  The model keeps the code points below 256
  (\<open>char\<close>), with the character classes Python gives them there: \<open>\w\<close> of module \<open>re\<close> is
  \<open>str.isalnum\<close> or the underscore, and \<open>str.strip\<close> removes the characters of \<open>str.isspace\<close>.
\<close>

definition is_word :: "char \<Rightarrow> bool" where
  "is_word c = (let n = (of_char c :: nat) in
     (48 \<le> n \<and> n \<le> 57) \<or> (65 \<le> n \<and> n \<le> 90) \<or> n = 95 \<or> (97 \<le> n \<and> n \<le> 122)
     \<or> n = 170 \<or> n = 178 \<or> n = 179 \<or> n = 181 \<or> n = 185 \<or> n = 186
     \<or> (188 \<le> n \<and> n \<le> 190) \<or> (192 \<le> n \<and> n \<le> 214) \<or> (216 \<le> n \<and> n \<le> 246)
     \<or> 248 \<le> n)"

definition is_space :: "char \<Rightarrow> bool" where
  "is_space c = (let n = (of_char c :: nat) in
     (9 \<le> n \<and> n \<le> 13) \<or> (28 \<le> n \<and> n \<le> 32) \<or> n = 133 \<or> n = 160)"

definition is_digit :: "char \<Rightarrow> bool" where
  "is_digit c = (let n = (of_char c :: nat) in 48 \<le> n \<and> n \<le> 57)"

abbreviation NL :: char where
  "NL \<equiv> CHR 0x0A"

text \<open>\<open>str.strip()\<close>\<close>

definition strip :: "string \<Rightarrow> string" where
  "strip s = rev (dropWhile is_space (rev (dropWhile is_space s)))"

text \<open>\<open>str.split("\n")\<close>: always at least one piece.\<close>

fun split_nl :: "string \<Rightarrow> string list" where
  "split_nl [] = [[]]"
| "split_nl (c # cs) =
     (if c = NL then [] # split_nl cs
      else (case split_nl cs of [] \<Rightarrow> [[c]] | l # ls \<Rightarrow> (c # l) # ls))"

text \<open>\<open>str.startswith\<close>\<close>

definition startswith :: "string \<Rightarrow> string \<Rightarrow> bool" where
  "startswith p s = (take (length p) s = p)"

section \<open>The regular expressions of module \<open>re\<close>\<close>

text \<open>
  The patterns of the program use literals, character classes, sequence, alternation, the
  greedy \<open>?\<close>, the repetitions \<open>*\<close>, \<open>+\<close>, \<open>*?\<close>, \<open>+?\<close> of a single character class, capture
  groups, \<open>^\<close> and \<open>$\<close>.  \<open>Rep greedy m p\<close> repeats the class \<open>p\<close> at least \<open>m\<close> times.
\<close>

datatype re =
    Lit string
  | Cls "char \<Rightarrow> bool"
  | Seq re re
  | Alt re re
  | Opt re
  | Rep bool nat "char \<Rightarrow> bool"
  | Grp nat re
  | Bol
  | Eol

type_synonym groups = "nat \<Rightarrow> string option"

text \<open>A matcher state: the position reached, the text from there on, the groups captured.\<close>

type_synonym mstate = "nat \<times> string \<times> groups"

text \<open>
  \<open>ms r st\<close> lists every way \<open>r\<close> matches from \<open>st\<close>, in the order in which the backtracking
  matcher of \<open>re\<close> tries them: the first alternative before the second, the longer repetition
  before the shorter one when greedy and after it when lazy, the optional part taken before
  it is skipped.  The match \<open>re\<close> reports is the head of the list.
\<close>

fun ms :: "re \<Rightarrow> mstate \<Rightarrow> mstate list" where
  "ms (Lit w) (i, s, g) =
     (if take (length w) s = w then [(i + length w, drop (length w) s, g)] else [])"
| "ms (Cls p) (i, s, g) =
     (case s of [] \<Rightarrow> [] | x # xs \<Rightarrow> if p x then [(Suc i, xs, g)] else [])"
| "ms (Seq a b) st = concat (map (ms b) (ms a st))"
| "ms (Alt a b) st = ms a st @ ms b st"
| "ms (Opt a) st = ms a st @ [st]"
| "ms (Rep greedy m p) (i, s, g) =
     (let ks = [m..<Suc (length (takeWhile p s))]
      in map (\<lambda>k. (i + k, drop k s, g)) (if greedy then rev ks else ks))"
| "ms (Grp n a) (i, s, g) =
     map (\<lambda>(j, t, h). (j, t, h(n \<mapsto> take (j - i) s))) (ms a (i, s, g))"
| "ms Bol (i, s, g) = (if i = 0 then [(i, s, g)] else [])"
| "ms Eol (i, s, g) = (if s = [] \<or> s = [NL] then [(i, s, g)] else [])"

text \<open>A match object: \<open>start()\<close>, \<open>end()\<close>, \<open>group()\<close> and the numbered groups.\<close>

record rmatch =
  m_start :: nat
  m_end :: nat
  m_text :: string
  m_groups :: groups

text \<open>The match of \<open>r\<close> starting at position \<open>i\<close>, where \<open>s\<close> is the text from \<open>i\<close> on.\<close>

definition match_at :: "re \<Rightarrow> nat \<Rightarrow> string \<Rightarrow> rmatch option" where
  "match_at r i s =
     (case ms r (i, s, Map.empty) of
        [] \<Rightarrow> None
      | (j, t, g) # _ \<Rightarrow>
          Some \<lparr>m_start = i, m_end = j, m_text = take (j - i) s, m_groups = g\<rparr>)"

text \<open>The text of a group as \<open>findall\<close> and a replacement template give it: empty when the
  group took no part in the match.\<close>

definition grp :: "rmatch \<Rightarrow> nat \<Rightarrow> string" where
  "grp m n = (case m_groups m n of None \<Rightarrow> [] | Some t \<Rightarrow> t)"

text \<open>\<open>re.search\<close>: the leftmost position with a match.\<close>

fun search_from :: "re \<Rightarrow> nat \<Rightarrow> string \<Rightarrow> rmatch option" where
  "search_from r i [] = match_at r i []"
| "search_from r i (x # xs) =
     (case match_at r i (x # xs) of
        Some m \<Rightarrow> Some m
      | None \<Rightarrow> search_from r (Suc i) xs)"

definition re_search :: "re \<Rightarrow> string \<Rightarrow> rmatch option" where
  "re_search r s = search_from r 0 s"

text \<open>
  \<open>re.finditer\<close>: the matches from left to right, each search starting where the previous
  match ended.  After a match of no character the scan moves one character on; no pattern
  of the program matches the empty text.
\<close>

function scan :: "re \<Rightarrow> nat \<Rightarrow> string \<Rightarrow> rmatch list" where
  "scan r i [] = (case match_at r i [] of None \<Rightarrow> [] | Some m \<Rightarrow> [m])"
| "scan r i (x # xs) =
     (case match_at r i (x # xs) of
        None \<Rightarrow> scan r (Suc i) xs
      | Some m \<Rightarrow>
          m # (if m_end m \<le> i then scan r (Suc i) xs
               else scan r (m_end m) (drop (m_end m - i) (x # xs))))"
  by pat_completeness auto
termination
  by (relation "measure (\<lambda>(r, i, s). length s)") auto

definition finditer :: "re \<Rightarrow> string \<Rightarrow> rmatch list" where
  "finditer r s = scan r 0 s"

text \<open>\<open>re.sub\<close>: the text between the matches is kept, each match is replaced.\<close>

fun splice :: "(rmatch \<Rightarrow> string) \<Rightarrow> nat \<Rightarrow> string \<Rightarrow> rmatch list \<Rightarrow> string" where
  "splice f i s [] = s"
| "splice f i s (m # rest) =
     take (m_start m - i) s @ f m @ splice f (m_end m) (drop (m_end m - i) s) rest"

definition re_sub :: "re \<Rightarrow> (rmatch \<Rightarrow> string) \<Rightarrow> string \<Rightarrow> string" where
  "re_sub r f s = splice f 0 s (finditer r s)"

text \<open>\<open>re.findall\<close> for a pattern with two groups: the pairs of group texts.\<close>

definition findall2 :: "re \<Rightarrow> string \<Rightarrow> (string \<times> string) list" where
  "findall2 r s = map (\<lambda>m. (grp m 1, grp m 2)) (finditer r s)"

text \<open>\<open>re.findall\<close> for a pattern without groups: the matched texts.\<close>

definition findall0 :: "re \<Rightarrow> string \<Rightarrow> string list" where
  "findall0 r s = map m_text (finditer r s)"

text \<open>The character classes of the patterns.\<close>

definition not_in :: "string \<Rightarrow> char \<Rightarrow> bool" where
  "not_in cs c = (c \<notin> set cs)"

definition word_or_space :: "char \<Rightarrow> bool" where
  "word_or_space c = (is_word c \<or> c = CHR '' '')"

section \<open>Numbers\<close>

text \<open>
  \<open>int(text)\<close>: surrounding whitespace is dropped, one sign is allowed, the digits may be
  separated by single underscores.  \<open>None\<close> stands for the \<open>ValueError\<close>.  (The interpreter's
  configurable limit on the number of digits is not modelled.)
\<close>

fun digits_ok :: "string \<Rightarrow> bool" where
  "digits_ok [] = False"
| "digits_ok [c] = is_digit c"
| "digits_ok (c # d # cs) =
     (is_digit c \<and> (if d = CHR ''_'' then digits_ok cs else digits_ok (d # cs)))"

definition digits_value :: "string \<Rightarrow> nat" where
  "digits_value cs = foldl (\<lambda>n c. 10 * n + (of_char c - 48)) 0 (filter is_digit cs)"

definition py_int :: "string \<Rightarrow> int option" where
  "py_int s =
     (let t = strip s;
          neg = (t \<noteq> [] \<and> hd t = CHR ''-'');
          body = (if t \<noteq> [] \<and> (hd t = CHR ''-'' \<or> hd t = CHR ''+'') then tl t else t)
      in if digits_ok body
         then Some (if neg then - int (digits_value body) else int (digits_value body))
         else None)"

text \<open>
  \<open>float\<close> and \<open>fractions.Fraction\<close> are taken as given: which texts they accept (\<open>None\<close> is
  the exception they raise), the sum of two floats, and \<open>round(x, 1)\<close> on a float.
\<close>

record 'f numlib =
  float_of :: "string \<Rightarrow> 'f option"
  fraction_of :: "string \<Rightarrow> rat option"
  float_add :: "'f \<Rightarrow> 'f \<Rightarrow> 'f"
  float_round1 :: "'f \<Rightarrow> 'f"

section \<open>Quantity, Timer, Ingredient\<close>

datatype 'f amount = IntA int | FloatA 'f | FracA rat

datatype numtype = TInt | TFloat | TFraction

fun type_of :: "'f amount \<Rightarrow> numtype" where
  "type_of (IntA _) = TInt"
| "type_of (FloatA _) = TFloat"
| "type_of (FracA _) = TFraction"

record 'f Quantity =
  amount :: "'f amount"
  unit :: "string option"

text \<open>The exceptions of the program, by the place that raises them.\<close>

datatype error =
    MalformedQuantity string
  | IncompatibleUnits "string option" "string option"
  | IncompatibleTypes numtype numtype
  | IncompatibleNames string string
  | SpanResolutionFailure
  | IndexError

text \<open>\<open>Quantity.__add__\<close>\<close>

fun amount_add :: "'f numlib \<Rightarrow> 'f amount \<Rightarrow> 'f amount \<Rightarrow> 'f amount" where
  "amount_add L (IntA a) (IntA b) = IntA (a + b)"
| "amount_add L (FloatA a) (FloatA b) = FloatA (float_round1 L (float_add L a b))"
| "amount_add L (FracA a) (FracA b) = FracA (a + b)"
| "amount_add L a _ = a"

definition Quantity_add :: "'f numlib \<Rightarrow> 'f Quantity \<Rightarrow> 'f Quantity \<Rightarrow> error + 'f Quantity" where
  "Quantity_add L self other =
     (if unit self \<noteq> unit other then Inl (IncompatibleUnits (unit self) (unit other))
      else if type_of (amount self) \<noteq> type_of (amount other)
      then Inl (IncompatibleTypes (type_of (amount self)) (type_of (amount other)))
      else Inr \<lparr>amount = amount_add L (amount self) (amount other), unit = unit self\<rparr>)"

text \<open>\<open>Quantity.add_optional\<close>\<close>

fun add_optional ::
  "'f numlib \<Rightarrow> 'f Quantity option \<Rightarrow> 'f Quantity option \<Rightarrow> error + 'f Quantity option" where
  "add_optional L (Some a) (Some b) =
     (case Quantity_add L a b of Inl e \<Rightarrow> Inl e | Inr q \<Rightarrow> Inr (Some q))"
| "add_optional L (Some a) None = Inr (Some a)"
| "add_optional L None b = Inr b"

text \<open>\<open>_get_quantity\<close>\<close>

definition get_quantity ::
  "'f numlib \<Rightarrow> (string \<times> string) list \<Rightarrow> error + 'f Quantity option" where
  "get_quantity L matches =
     (case matches of
        [] \<Rightarrow> Inr None
      | (amount_as_str, u) # _ \<Rightarrow>
          if amount_as_str = [] then Inr None
          else
            (case (if CHR ''.'' \<in> set amount_as_str
                   then map_option FloatA (float_of L amount_as_str)
                   else if CHR ''/'' \<in> set amount_as_str
                   then map_option FracA (fraction_of L amount_as_str)
                   else map_option IntA (py_int amount_as_str)) of
               None \<Rightarrow> Inl (MalformedQuantity amount_as_str)
             | Some a \<Rightarrow> Inr (Some \<lparr>amount = a, unit = (if u \<noteq> [] then Some u else None)\<rparr>)))"

text \<open>The pattern \<open>([^%}]+)%?([\w]+)?\<close> of \<open>Timer.parse\<close> and \<open>Ingredient.parse\<close>.\<close>

definition quantity_re :: re where
  "quantity_re =
     Seq (Grp 1 (Rep True 1 (not_in ''%}'')))
       (Seq (Opt (Lit ''%'')) (Opt (Grp 2 (Rep True 1 is_word))))"

record 'f Timer =
  t_name :: string
  t_quantity :: "'f Quantity option"

text \<open>The pattern \<open>^~([^{]*)(?:{([^}]*)})?\<close>.\<close>

definition timer_parts_re :: re where
  "timer_parts_re =
     Seq Bol (Seq (Lit ''~'') (Seq (Grp 1 (Rep True 0 (not_in ''{'')))
       (Opt (Seq (Lit ''{'') (Seq (Grp 2 (Rep True 0 (not_in ''}''))) (Lit ''}''))))))"

text \<open>\<open>Timer.parse\<close>\<close>

definition Timer_parse :: "'f numlib \<Rightarrow> string \<Rightarrow> error + 'f Timer" where
  "Timer_parse L raw =
     (case findall2 timer_parts_re raw of
        [] \<Rightarrow> Inl IndexError
      | (name, raw_amount) # _ \<Rightarrow>
          (case get_quantity L (findall2 quantity_re raw_amount) of
             Inl e \<Rightarrow> Inl e
           | Inr q \<Rightarrow> Inr \<lparr>t_name = name, t_quantity = q\<rparr>))"

record 'f Ingredient =
  name :: string
  location :: "nat \<times> nat \<times> nat"
  quantity :: "'f Quantity option"

text \<open>The pattern \<open>^@([^{]+)(?:{([^}]*)})?\<close>.\<close>

definition ingredient_parts_re :: re where
  "ingredient_parts_re =
     Seq Bol (Seq (Lit ''@'') (Seq (Grp 1 (Rep True 1 (not_in ''{'')))
       (Opt (Seq (Lit ''{'') (Seq (Grp 2 (Rep True 0 (not_in ''}''))) (Lit ''}''))))))"

text \<open>
  The end offset of the last ingredient found so far on the step (\<open>last_ingr_index\<close> of
  \<open>Ingredient.parse\<close>), 0 when there is none.
\<close>

definition last_ingr_index :: "nat \<Rightarrow> 'f Ingredient list \<Rightarrow> nat" where
  "last_ingr_index step_index current_ingredients =
     (let ingredients_on_current_step =
            filter (\<lambda>i. fst (location i) = step_index) current_ingredients
      in if ingredients_on_current_step \<noteq> []
         then snd (snd (location (last ingredients_on_current_step)))
         else 0)"

text \<open>
  \<open>Ingredient.parse\<close>.  The name is compiled as a pattern for the search of the location; it
  is made of word characters and spaces, which stand for themselves.
\<close>

definition Ingredient_parse ::
  "'f numlib \<Rightarrow> rmatch \<Rightarrow> nat \<Rightarrow> string list \<Rightarrow> 'f Ingredient list \<Rightarrow> error + 'f Ingredient" where
  "Ingredient_parse L match step_index steps current_ingredients =
     (let raw = m_text match in
      case findall2 ingredient_parts_re raw of
        [] \<Rightarrow> Inl IndexError
      | (nm, raw_amount) # _ \<Rightarrow>
          (let matches = findall2 quantity_re raw_amount;
               last_index = last_ingr_index step_index current_ingredients
           in if \<not> step_index < length steps then Inl IndexError
              else
                (case re_search (Lit nm) (drop last_index (steps ! step_index)) of
                   None \<Rightarrow> Inl SpanResolutionFailure
                 | Some location_match \<Rightarrow>
                     (case get_quantity L matches of
                        Inl e \<Rightarrow> Inl e
                      | Inr q \<Rightarrow>
                          Inr \<lparr>name = nm,
                               location = (step_index,
                                           m_start location_match + last_index,
                                           m_end location_match + last_index),
                               quantity = q\<rparr>))))"

text \<open>\<open>Ingredient.__add__\<close>\<close>

definition Ingredient_add ::
  "'f numlib \<Rightarrow> 'f Ingredient \<Rightarrow> 'f Ingredient \<Rightarrow> error + 'f Ingredient" where
  "Ingredient_add L self other =
     (if name self \<noteq> name other then Inl (IncompatibleNames (name self) (name other))
      else
        (case add_optional L (quantity self) (quantity other) of
           Inl e \<Rightarrow> Inl e
         | Inr q \<Rightarrow> Inr \<lparr>name = name self, location = location self, quantity = q\<rparr>))"

section \<open>Recipe.parse\<close>

record 'f Recipe =
  metadata :: "(string \<times> string) list"
  ingredients :: "'f Ingredient list"
  steps :: "string list"
  cookware :: "string list"
  timers :: "'f Timer list"

text \<open>The pattern \<open>(--[^\n]+|\[-.*-\])\<close>.\<close>

definition comment_re :: re where
  "comment_re =
     Grp 1 (Alt (Seq (Lit ''--'') (Rep True 1 (not_in [NL])))
                (Seq (Lit ''[-'') (Seq (Rep True 0 (not_in [NL])) (Lit ''-]''))))"

text \<open>The pattern \<open>~[\w ]*\{([^}%]*)(?:%([^}]+))?}\<close>, replaced by \<open>\1 \2\<close>.\<close>

definition timer_render_re :: re where
  "timer_render_re =
     Seq (Lit ''~'') (Seq (Rep True 0 word_or_space) (Seq (Lit ''{'')
       (Seq (Grp 1 (Rep True 0 (not_in ''}%'')))
         (Seq (Opt (Seq (Lit ''%'') (Grp 2 (Rep True 1 (not_in ''}''))))) (Lit ''}'')))))"

text \<open>The pattern \<open>(?:@|#)(\w[\w ]*)({[^}]*})?\<close>, replaced by \<open>\1\<close>.\<close>

definition name_render_re :: re where
  "name_render_re =
     Seq (Alt (Lit ''@'') (Lit ''#''))
       (Seq (Grp 1 (Seq (Cls is_word) (Rep True 0 word_or_space)))
         (Opt (Grp 2 (Seq (Lit ''{'') (Seq (Rep True 0 (not_in ''}'')) (Lit ''}''))))))"

definition render_step :: "string \<Rightarrow> string" where
  "render_step raw_step =
     re_sub name_render_re (\<lambda>m. grp m 1)
       (re_sub timer_render_re (\<lambda>m. grp m 1 @ '' '' @ grp m 2) raw_step)"

text \<open>The pattern \<open>@(?:(?:[\w ]+?){[^}]*}|[\w]+)\<close>.\<close>

definition ingr_pat :: re where
  "ingr_pat =
     Seq (Lit ''@'')
       (Alt (Seq (Rep False 1 word_or_space)
               (Seq (Lit ''{'') (Seq (Rep True 0 (not_in ''}'')) (Lit ''}''))))
            (Rep True 1 is_word))"

text \<open>The pattern \<open>#(([\w ]+?){[^}]*}|[\w]+)\<close>.\<close>

definition cookware_re :: re where
  "cookware_re =
     Seq (Lit ''#'')
       (Grp 1 (Alt (Seq (Grp 2 (Rep False 1 word_or_space))
                      (Seq (Lit ''{'') (Seq (Rep True 0 (not_in ''}'')) (Lit ''}''))))
                   (Rep True 1 is_word)))"

text \<open>The pattern \<open>~(?:(?:[\w ]*?){[^}]*}|[\w]+)\<close>.\<close>

definition timer_re :: re where
  "timer_re =
     Seq (Lit ''~'')
       (Alt (Seq (Rep False 0 word_or_space)
               (Seq (Lit ''{'') (Seq (Rep True 0 (not_in ''}'')) (Lit ''}''))))
            (Rep True 1 is_word))"

text \<open>The pattern \<open>^>> ?([^:]+): ?(.*)$\<close>.\<close>

definition metadata_re :: re where
  "metadata_re =
     Seq Bol (Seq (Lit ''>>'') (Seq (Opt (Lit '' '')) (Seq (Grp 1 (Rep True 1 (not_in '':'')))
       (Seq (Lit '':'') (Seq (Opt (Lit '' '')) (Seq (Grp 2 (Rep True 0 (not_in [NL]))) Eol))))))"

text \<open>The preprocessing: comments removed, lines split and stripped, empty lines dropped.\<close>

definition raw_paragraphs :: "string \<Rightarrow> string list" where
  "raw_paragraphs raw =
     filter (\<lambda>l. l \<noteq> []) (map strip (split_nl (re_sub comment_re (\<lambda>m. []) raw)))"

text \<open>The loop over the steps and the ingredient matches of each, appending to the list.\<close>

fun parse_matches ::
  "'f numlib \<Rightarrow> nat \<Rightarrow> string list \<Rightarrow> rmatch list \<Rightarrow> 'f Ingredient list
     \<Rightarrow> error + 'f Ingredient list" where
  "parse_matches L idx stps [] acc = Inr acc"
| "parse_matches L idx stps (m # rest) acc =
     (case Ingredient_parse L m idx stps acc of
        Inl e \<Rightarrow> Inl e
      | Inr i \<Rightarrow> parse_matches L idx stps rest (acc @ [i]))"

fun parse_ingredients ::
  "'f numlib \<Rightarrow> string list \<Rightarrow> (nat \<times> string) list \<Rightarrow> 'f Ingredient list
     \<Rightarrow> error + 'f Ingredient list" where
  "parse_ingredients L stps [] acc = Inr acc"
| "parse_ingredients L stps ((idx, raw_step) # rest) acc =
     (case parse_matches L idx stps (finditer ingr_pat raw_step) acc of
        Inl e \<Rightarrow> Inl e
      | Inr acc' \<Rightarrow> parse_ingredients L stps rest acc')"

text \<open>The cookware of a step: \<open>s[1] or s[0]\<close> of each match.\<close>

definition step_cookware :: "string \<Rightarrow> string list" where
  "step_cookware raw_step =
     map (\<lambda>m. if grp m 2 \<noteq> [] then grp m 2 else grp m 1) (finditer cookware_re raw_step)"

text \<open>Collecting results that may fail: the first error ends the run.\<close>

fun collect :: "(error + 'a) list \<Rightarrow> error + 'a list" where
  "collect [] = Inr []"
| "collect (x # xs) =
     (case x of
        Inl e \<Rightarrow> Inl e
      | Inr v \<Rightarrow> (case collect xs of Inl e \<Rightarrow> Inl e | Inr vs \<Rightarrow> Inr (v # vs)))"

definition step_timers :: "'f numlib \<Rightarrow> string \<Rightarrow> error + 'f Timer list" where
  "step_timers L raw_step = collect (map (Timer_parse L) (findall0 timer_re raw_step))"

text \<open>\<open>_remove_duplicates\<close>: the dictionary keeps its keys in the order of insertion.\<close>

fun remove_duplicates_loop ::
  "'f numlib \<Rightarrow> 'f Ingredient list \<Rightarrow> (string \<times> 'f Ingredient) list
     \<Rightarrow> error + (string \<times> 'f Ingredient) list" where
  "remove_duplicates_loop L [] name_to_ingredient = Inr name_to_ingredient"
| "remove_duplicates_loop L (i # rest) name_to_ingredient =
     (case map_of name_to_ingredient (name i) of
        None \<Rightarrow> remove_duplicates_loop L rest (AList.update (name i) i name_to_ingredient)
      | Some j \<Rightarrow>
          (case Ingredient_add L j i of
             Inl e \<Rightarrow> Inl e
           | Inr k \<Rightarrow> remove_duplicates_loop L rest (AList.update (name i) k name_to_ingredient)))"

definition remove_duplicates :: "'f numlib \<Rightarrow> 'f Ingredient list \<Rightarrow> error + 'f Ingredient list" where
  "remove_duplicates L ingrs =
     (case remove_duplicates_loop L ingrs [] of Inl e \<Rightarrow> Inl e | Inr d \<Rightarrow> Inr (map snd d))"

text \<open>\<open>_extract_metadata\<close>\<close>

definition extract_metadata :: "string \<Rightarrow> (string \<times> string) option" where
  "extract_metadata raw_line =
     (case re_search metadata_re raw_line of
        None \<Rightarrow> None
      | Some res \<Rightarrow> Some (strip (grp res 1), strip (grp res 2)))"

text \<open>\<open>dict(pairs)\<close>: a later pair replaces the value of an equal key, in its place.\<close>

definition dict_of :: "(string \<times> string) list \<Rightarrow> (string \<times> string) list" where
  "dict_of pairs = foldl (\<lambda>d (k, v). AList.update k v d) [] pairs"

text \<open>The step lines and the metadata lines of the paragraphs.\<close>

definition raw_steps_of :: "string list \<Rightarrow> string list" where
  "raw_steps_of paragraphs = filter (\<lambda>x. \<not> startswith ''>>'' x) paragraphs"

definition raw_metadata_of :: "string list \<Rightarrow> string list" where
  "raw_metadata_of paragraphs = filter (\<lambda>x. startswith ''>>'' x) paragraphs"

text \<open>The ingredient mentions of the step lines, before duplicates are removed.\<close>

definition raw_mentions :: "'f numlib \<Rightarrow> string list \<Rightarrow> error + 'f Ingredient list" where
  "raw_mentions L raw_steps =
     parse_ingredients L (map render_step raw_steps) (enumerate 0 raw_steps) []"

definition parse_metadata :: "string list \<Rightarrow> (string \<times> string) list" where
  "parse_metadata raw_metadata = dict_of (List.map_filter extract_metadata raw_metadata)"

text \<open>\<open>Recipe.parse\<close>, from the paragraphs on.\<close>

definition parse_paragraphs :: "'f numlib \<Rightarrow> string list \<Rightarrow> error + 'f Recipe" where
  "parse_paragraphs L paragraphs =
     (let raw_steps = raw_steps_of paragraphs;
          stps = map render_step raw_steps
      in case raw_mentions L raw_steps of
           Inl e \<Rightarrow> Inl e
         | Inr ingrs \<Rightarrow>
             (let cw = concat (map step_cookware raw_steps)
              in case collect (map (step_timers L) raw_steps) of
                   Inl e \<Rightarrow> Inl e
                 | Inr ts \<Rightarrow>
                     (case remove_duplicates L ingrs of
                        Inl e \<Rightarrow> Inl e
                      | Inr ingrs' \<Rightarrow>
                          Inr \<lparr>metadata = parse_metadata (raw_metadata_of paragraphs),
                               ingredients = ingrs',
                               steps = stps,
                               cookware = cw,
                               timers = concat ts\<rparr>)))"

definition parse :: "'f numlib \<Rightarrow> string \<Rightarrow> error + 'f Recipe" where
  "parse L raw = parse_paragraphs L (raw_paragraphs raw)"

section \<open>Notions used to state the properties\<close>

definition mentions_of :: "string \<Rightarrow> 'f Ingredient list \<Rightarrow> 'f Ingredient list" where
  "mentions_of n mens = filter (\<lambda>m. name m = n) mens"

fun sum_optional ::
  "'f numlib \<Rightarrow> 'f Quantity option \<Rightarrow> 'f Quantity option list \<Rightarrow> error + 'f Quantity option" where
  "sum_optional L acc [] = Inr acc"
| "sum_optional L acc (q # qs) =
     (case add_optional L acc q of Inl e \<Rightarrow> Inl e | Inr a \<Rightarrow> sum_optional L a qs)"

definition first_appearance :: "'a list \<Rightarrow> 'a list" where
  "first_appearance xs = rev (remdups (rev xs))"

definition summarises :: "'f numlib \<Rightarrow> 'f Ingredient list \<Rightarrow> 'f Ingredient \<Rightarrow> bool" where
  "summarises L mens e =
     (case mentions_of (name e) mens of
        [] \<Rightarrow> False
      | m0 # others \<Rightarrow>
          location e = location m0 \<and>
          sum_optional L (quantity m0) (map quantity others) = Inr (quantity e))"

definition dedup_inv ::
  "'f numlib \<Rightarrow> 'f Ingredient list \<Rightarrow> (string \<times> 'f Ingredient) list \<Rightarrow> bool" where
  "dedup_inv L seen d =
     (map fst d = first_appearance (map name seen) \<and>
      (\<forall>n v. map_of d n = Some v \<longrightarrow> name v = n \<and> summarises L seen v))"

definition no_floats :: "unit numlib" where
  "no_floats = \<lparr>float_of = (\<lambda>_. None), fraction_of = (\<lambda>_. None),
                 float_add = (\<lambda>_ _. ()), float_round1 = (\<lambda>_. ())\<rparr>"

definition step_fields ::
  "'f Recipe \<Rightarrow> 'f Ingredient list \<times> string list \<times> string list \<times> 'f Timer list" where
  "step_fields r = (ingredients r, steps r, cookware r, timers r)"

definition span_ok :: "string list \<Rightarrow> 'f Ingredient list \<Rightarrow> nat \<Rightarrow> bool" where
  "span_ok stps mens b =
     (let i = mens ! b;
          t = fst (location i);
          st = fst (snd (location i));
          en = snd (snd (location i));
          prev = last_ingr_index t (take b mens)
      in t < length stps \<and> prev \<le> st \<and> en = st + length (name i)
         \<and> take (length (name i)) (drop st (stps ! t)) = name i
         \<and> (\<forall>p. prev \<le> p \<and> p < st \<longrightarrow> take (length (name i)) (drop p (stps ! t)) \<noteq> name i))"

section \<open>Evaluation on concrete texts\<close>

lemmas model_defs = parse_def parse_paragraphs_def raw_paragraphs_def re_sub_def finditer_def
  findall2_def findall0_def re_search_def match_at_def grp_def render_step_def
  comment_re_def timer_render_re_def name_render_re_def ingr_pat_def cookware_re_def timer_re_def
  metadata_re_def quantity_re_def timer_parts_re_def ingredient_parts_re_def
  Ingredient_parse_def Timer_parse_def get_quantity_def step_cookware_def step_timers_def
  remove_duplicates_def extract_metadata_def dict_of_def parse_metadata_def
  raw_steps_of_def raw_metadata_of_def raw_mentions_def last_ingr_index_def
  Ingredient_add_def Quantity_add_def
  strip_def startswith_def not_in_def word_or_space_def is_word_def is_space_def is_digit_def
  py_int_def digits_value_def Let_def List.map_filter_def enumerate_eq_zip

lemma first_appearance_snoc:
  "first_appearance (xs @ [x]) =
     (if x \<in> set xs then first_appearance xs else first_appearance xs @ [x])"
  by (simp add: first_appearance_def)

lemma set_first_appearance [simp]: "set (first_appearance xs) = set xs"
  by (simp add: first_appearance_def)

lemma distinct_first_appearance [simp]: "distinct (first_appearance xs)"
  by (simp add: first_appearance_def)

lemma sum_optional_snoc:
  "sum_optional L a (qs @ [q]) =
     (case sum_optional L a qs of Inl e \<Rightarrow> Inl e | Inr b \<Rightarrow> add_optional L b q)"
  by (induction qs arbitrary: a) (auto split: sum.splits)

lemma map_fst_update:
  "map fst (AList.update k v al) = (if k \<in> fst ` set al then map fst al else map fst al @ [k])"
  by (induction al) auto

lemma dedup_inv_fresh:
  assumes inv: "dedup_inv L seen d" and none: "map_of d (name i) = None"
  shows "dedup_inv L (seen @ [i]) (AList.update (name i) i d)"
proof -
  have keys: "fst ` set d = name ` set seen"
    using inv by (metis dedup_inv_def list.set_map set_first_appearance)
  have notin: "name i \<notin> name ` set seen"
    using none keys by (simp add: map_of_eq_None_iff)
  have nomention: "mentions_of (name i) seen = []"
    unfolding mentions_of_def filter_empty_conv using notin by (metis imageI)
  have order: "map fst (AList.update (name i) i d) = first_appearance (map name (seen @ [i]))"
    using inv notin keys by (simp add: map_fst_update first_appearance_snoc dedup_inv_def)
  have vals: "name v = n \<and> summarises L (seen @ [i]) v"
    if "map_of (AList.update (name i) i d) n = Some v" for n v
  proof (cases "n = name i")
    case True
    then have "v = i" using that by (simp add: update_conv')
    then show ?thesis using True nomention by (simp add: summarises_def mentions_of_def)
  next
    case False
    then have old: "map_of d n = Some v" using that by (simp add: update_conv')
    then have "name v = n" "summarises L seen v" using inv by (auto simp: dedup_inv_def)
    then show ?thesis using False by (simp add: summarises_def mentions_of_def)
  qed
  show ?thesis unfolding dedup_inv_def using order vals by blast
qed

lemma dedup_inv_merge:
  assumes inv: "dedup_inv L seen d" and some: "map_of d (name i) = Some j"
    and add: "Ingredient_add L j i = Inr k"
  shows "dedup_inv L (seen @ [i]) (AList.update (name i) k d)"
proof -
  have keys: "fst ` set d = name ` set seen"
    using inv by (metis dedup_inv_def list.set_map set_first_appearance)
  have isin: "name i \<in> fst ` set d"
    using some by (metis map_of_eq_None_iff option.distinct(1))
  have j: "name j = name i" "summarises L seen j"
    using inv some by (auto simp: dedup_inv_def)
  obtain q where q: "add_optional L (quantity j) (quantity i) = Inr q"
    and k: "k = \<lparr>name = name j, location = location j, quantity = q\<rparr>"
    using add by (auto simp: Ingredient_add_def split: if_splits sum.splits)
  have order: "map fst (AList.update (name i) k d) = first_appearance (map name (seen @ [i]))"
    using inv isin keys by (simp add: map_fst_update first_appearance_snoc dedup_inv_def)
  have sumk: "summarises L (seen @ [i]) k"
    using j q k
    by (auto simp: summarises_def mentions_of_def sum_optional_snoc split: list.splits)
  have vals: "name v = n \<and> summarises L (seen @ [i]) v"
    if "map_of (AList.update (name i) k d) n = Some v" for n v
  proof (cases "n = name i")
    case True
    then have "v = k" using that by (simp add: update_conv')
    then show ?thesis using True sumk k j by simp
  next
    case False
    then have old: "map_of d n = Some v" using that by (simp add: update_conv')
    then have "name v = n" "summarises L seen v" using inv by (auto simp: dedup_inv_def)
    then show ?thesis using False by (simp add: summarises_def mentions_of_def)
  qed
  show ?thesis unfolding dedup_inv_def using order vals by blast
qed

lemma remove_duplicates_loop_inv:
  "remove_duplicates_loop L rest d = Inr d' \<Longrightarrow> dedup_inv L seen d
     \<Longrightarrow> dedup_inv L (seen @ rest) d'"
proof (induction rest arbitrary: d seen)
  case Nil
  then show ?case by simp
next
  case (Cons i rest)
  show ?case
  proof (cases "map_of d (name i)")
    case None
    then have run: "remove_duplicates_loop L rest (AList.update (name i) i d) = Inr d'"
      using Cons.prems(1) by simp
    have "dedup_inv L ((seen @ [i]) @ rest) d'"
      using Cons.IH[OF run dedup_inv_fresh[OF Cons.prems(2) None]] .
    then show ?thesis by simp
  next
    case (Some j)
    then obtain k where k: "Ingredient_add L j i = Inr k"
      and run: "remove_duplicates_loop L rest (AList.update (name i) k d) = Inr d'"
      using Cons.prems(1) by (auto split: sum.splits)
    have "dedup_inv L ((seen @ [i]) @ rest) d'"
      using Cons.IH[OF run dedup_inv_merge[OF Cons.prems(2) Some k]] .
    then show ?thesis by simp
  qed
qed

lemma dedup_inv_empty: "dedup_inv L [] []"
  by (simp add: dedup_inv_def first_appearance_def)

lemma remove_duplicates_correct:
  assumes "remove_duplicates L mens = Inr out"
  shows "map name out = first_appearance (map name mens)"
    and "\<forall>e\<in>set out. summarises L mens e"
proof -
  obtain d where d: "remove_duplicates_loop L mens [] = Inr d" and out: "out = map snd d"
    using assms by (auto simp: remove_duplicates_def split: sum.splits)
  have inv: "dedup_inv L mens d"
    using remove_duplicates_loop_inv[OF d dedup_inv_empty] by simp
  have dist: "distinct (map fst d)" using inv by (simp add: dedup_inv_def)
  have each: "name v = n \<and> summarises L mens v" if "(n, v) \<in> set d" for n v
    using inv dist that by (simp add: dedup_inv_def)
  have "map name out = map fst d"
    unfolding out using each by (induction d) auto
  then show "map name out = first_appearance (map name mens)"
    using inv by (simp add: dedup_inv_def)
  show "\<forall>e\<in>set out. summarises L mens e"
    unfolding out using each by auto
qed

section \<open>What a successful parse is made of\<close>

lemma parse_paragraphs_InrD:
  assumes "parse_paragraphs L ps = Inr r"
  shows "\<exists>mens ts. raw_mentions L (raw_steps_of ps) = Inr mens
           \<and> collect (map (step_timers L) (raw_steps_of ps)) = Inr ts
           \<and> remove_duplicates L mens = Inr (ingredients r)
           \<and> steps r = map render_step (raw_steps_of ps)
           \<and> cookware r = concat (map step_cookware (raw_steps_of ps))
           \<and> timers r = concat ts
           \<and> metadata r = parse_metadata (raw_metadata_of ps)"
  using assms by (auto simp: parse_paragraphs_def Let_def split: sum.splits)

lemma parse_paragraphs_steps_only:
  assumes "raw_steps_of ps = raw_steps_of qs"
  shows "map_sum id step_fields (parse_paragraphs L ps) = map_sum id step_fields (parse_paragraphs L qs)"
  using assms by (auto simp: parse_paragraphs_def Let_def step_fields_def split: sum.splits)

section \<open>Sums of quantities\<close>

lemma Quantity_add_InrD:
  "Quantity_add L a b = Inr c \<Longrightarrow>
     unit a = unit b \<and> type_of (amount a) = type_of (amount b)
     \<and> unit c = unit a \<and> type_of (amount c) = type_of (amount a)"
  by (cases "amount a"; cases "amount b") (auto simp: Quantity_add_def split: if_splits)

lemma add_optional_key:
  assumes "add_optional L x y = Inr z" and "x = Some a \<or> y = Some a"
  shows "\<exists>c. z = Some c \<and> unit c = unit a \<and> type_of (amount c) = type_of (amount a)"
  using assms
  by (cases x; cases y) (auto split: sum.splits dest!: Quantity_add_InrD)

lemma sum_optional_key:
  "sum_optional L acc qs = Inr z \<Longrightarrow> Some a \<in> set (acc # qs)
     \<Longrightarrow> \<exists>c. z = Some c \<and> unit c = unit a \<and> type_of (amount c) = type_of (amount a)"
proof (induction qs arbitrary: acc a)
  case Nil
  then show ?case by auto
next
  case (Cons q qs)
  from Cons.prems(1) obtain acc' where step: "add_optional L acc q = Inr acc'"
    and run: "sum_optional L acc' qs = Inr z"
    by (auto split: sum.splits)
  show ?case
  proof (cases "Some a \<in> set qs")
    case True
    then show ?thesis using Cons.IH[OF run, of a] by simp
  next
    case False
    then have "acc = Some a \<or> q = Some a" using Cons.prems(2) by auto
    from add_optional_key[OF step this] obtain c where
      c: "acc' = Some c" "unit c = unit a" "type_of (amount c) = type_of (amount a)" by blast
    from Cons.IH[OF run, of c] c show ?thesis by auto
  qed
qed

lemma Quantity_add_fails_iff:
  "(\<exists>e. Quantity_add L a b = Inl e) \<longleftrightarrow>
     (unit a \<noteq> unit b \<or> type_of (amount a) \<noteq> type_of (amount b))"
  by (auto simp: Quantity_add_def)

lemma summarisesD:
  "summarises L mens e \<Longrightarrow> \<exists>m0 others. mentions_of (name e) mens = m0 # others
      \<and> location e = location m0
      \<and> sum_optional L (quantity m0) (map quantity others) = Inr (quantity e)"
  by (cases "mentions_of (name e) mens") (auto simp: summarises_def)

lemma remove_duplicates_compatible:
  assumes ok: "remove_duplicates L mens = Inr out"
    and i: "i \<in> set mens" and j: "j \<in> set mens" and same: "name i = name j"
    and qi: "quantity i = Some qi" and qj: "quantity j = Some qj"
  shows "unit qi = unit qj \<and> type_of (amount qi) = type_of (amount qj)"
proof -
  have "name i \<in> set (map name out)"
    using remove_duplicates_correct(1)[OF ok] i by simp
  then obtain e where e: "e \<in> set out" "name e = name i" by auto
  then have "summarises L mens e" using remove_duplicates_correct(2)[OF ok] by blast
  then obtain m0 others where m: "mentions_of (name e) mens = m0 # others"
    and s: "sum_optional L (quantity m0) (map quantity others) = Inr (quantity e)"
    using summarisesD by blast
  have "i \<in> set (m0 # others)" "j \<in> set (m0 # others)"
    using i j same e(2) m[symmetric] by (auto simp: mentions_of_def)
  then have "Some qi \<in> set (quantity m0 # map quantity others)"
    "Some qj \<in> set (quantity m0 # map quantity others)"
    using qi qj by (auto simp: image_iff) metis+
  from sum_optional_key[OF s this(1)] sum_optional_key[OF s this(2)]
  show ?thesis by auto
qed

section \<open>The claims\<close>

text \<open>
  C4.  When the parse succeeds, the ingredients of the recipe have one entry for each name among
  the mentions, in the order in which the names first appear in the scan; the location of an
  entry is the location of the first mention of its name, and its quantity is the sum, from left
  to right, of the quantities of all mentions of the name, where a missing quantity added to a
  present one gives the present one and two missing ones give a missing one.
\<close>

theorem ingredients_deduplicated:
  assumes "parse L raw = Inr r"
  shows "\<exists>mens. raw_mentions L (raw_steps_of (raw_paragraphs raw)) = Inr mens
           \<and> map name (ingredients r) = first_appearance (map name mens)
           \<and> distinct (map name (ingredients r))
           \<and> (\<forall>e\<in>set (ingredients r). \<exists>m0 others.
                  mentions_of (name e) mens = m0 # others
                  \<and> location e = location m0
                  \<and> sum_optional L (quantity m0) (map quantity others) = Inr (quantity e))
           \<and> add_optional L None None = Inr None
           \<and> (\<forall>q. add_optional L None (Some q) = Inr (Some q)
                  \<and> add_optional L (Some q) None = Inr (Some q))"
proof -
  from assms obtain mens where m: "raw_mentions L (raw_steps_of (raw_paragraphs raw)) = Inr mens"
    and d: "remove_duplicates L mens = Inr (ingredients r)"
    unfolding parse_def by (blast dest: parse_paragraphs_InrD)
  have names: "map name (ingredients r) = first_appearance (map name mens)"
    using remove_duplicates_correct(1)[OF d] .
  have each: "\<forall>e\<in>set (ingredients r). \<exists>m0 others.
                  mentions_of (name e) mens = m0 # others
                  \<and> location e = location m0
                  \<and> sum_optional L (quantity m0) (map quantity others) = Inr (quantity e)"
    using remove_duplicates_correct(2)[OF d] summarisesD by blast
  show ?thesis using m names each by auto
qed

text \<open>
  C4 on a text that mentions salt twice and pepper once.
\<close>

theorem ingredients_deduplicated_witness:
  "\<exists>r mens. parse no_floats ''Add @salt{1%g} and @pepper then @salt{2%g}'' = Inr r
      \<and> raw_mentions no_floats
           (raw_steps_of (raw_paragraphs ''Add @salt{1%g} and @pepper then @salt{2%g}'')) = Inr mens
      \<and> map name mens = [''salt'', ''pepper'', ''salt'']
      \<and> map name (ingredients r) = first_appearance (map name mens)
      \<and> map name (ingredients r) = [''salt'', ''pepper'']
      \<and> map location (ingredients r) = [(0, 4, 8), (0, 13, 19)]
      \<and> map quantity (ingredients r) = [Some \<lparr>amount = IntA 3, unit = Some ''g''\<rparr>, None]"
proof -
  let ?raw = "''Add @salt{1%g} and @pepper then @salt{2%g}''"
  let ?r = "\<lparr>metadata = [],
      ingredients = [\<lparr>name = ''salt'', location = (0, 4, 8),
                       quantity = Some \<lparr>amount = IntA 3, unit = Some ''g''\<rparr>\<rparr>,
                     \<lparr>name = ''pepper'', location = (0, 13, 19), quantity = None\<rparr>],
      steps = [''Add salt and pepper then salt''], cookware = [], timers = []\<rparr>"
  have p: "parse no_floats ?raw = Inr ?r"
    by (simp add: model_defs)
  have m: "raw_mentions no_floats (raw_steps_of (raw_paragraphs ?raw)) =
      Inr [\<lparr>name = ''salt'', location = (0, 4, 8),
              quantity = Some \<lparr>amount = IntA 1, unit = Some ''g''\<rparr>\<rparr>,
           \<lparr>name = ''pepper'', location = (0, 13, 19), quantity = None\<rparr>,
           \<lparr>name = ''salt'', location = (0, 25, 29),
              quantity = Some \<lparr>amount = IntA 2, unit = Some ''g''\<rparr>\<rparr>]"
    by (simp add: model_defs)
  from ingredients_deduplicated[OF p] m p show ?thesis by auto
qed

text \<open>
  C10.  A paragraph that starts with \<open>>>\<close> adds nothing to the ingredients, steps, cookware
  and timers, nor to the failure of the parse: with or without it the result is the same.  So
  two texts with the same step lines give the same four fields, whatever their metadata lines
  hold.
\<close>

theorem metadata_lines_contribute_nothing:
  "(startswith ''>>'' m \<longrightarrow>
      map_sum id step_fields (parse_paragraphs L (ps @ m # qs))
        = map_sum id step_fields (parse_paragraphs L (ps @ qs)))
   \<and> (raw_steps_of (raw_paragraphs raw1) = raw_steps_of (raw_paragraphs raw2) \<longrightarrow>
      map_sum id step_fields (parse L raw1) = map_sum id step_fields (parse L raw2))"
  by (auto simp: parse_def raw_steps_of_def intro!: parse_paragraphs_steps_only)

section \<open>The matcher consumes a prefix of the text\<close>

lemma ms_consumes:
  "(j, t, h) \<in> set (ms r (i, s, g)) \<Longrightarrow> \<exists>k. j = i + k \<and> t = drop k s \<and> k \<le> length s"
proof (induction r arbitrary: i s g j t h)
  case (Lit w)
  then have w: "take (length w) s = w" and j: "j = i + length w" and t: "t = drop (length w) s"
    by (auto split: if_splits)
  have "length (take (length w) s) = length w" using w by simp
  then have "length w \<le> length s" by simp
  with j t show ?case by blast
next
  case (Cls p)
  then show ?case
    by (cases s) (auto split: if_splits intro: exI[of _ 1])
next
  case (Seq a b)
  from Seq.prems obtain j1 t1 h1 where
    one: "(j1, t1, h1) \<in> set (ms a (i, s, g))" and two: "(j, t, h) \<in> set (ms b (j1, t1, h1))"
    by auto
  from Seq.IH(1)[OF one] obtain k1 where k1: "j1 = i + k1" "t1 = drop k1 s" "k1 \<le> length s"
    by blast
  from Seq.IH(2)[OF two] obtain k2 where k2: "j = j1 + k2" "t = drop k2 t1" "k2 \<le> length t1"
    by blast
  have "j = i + (k1 + k2)" "t = drop (k1 + k2) s" "k1 + k2 \<le> length s"
    using k1 k2 by (auto simp: add.commute)
  then show ?case by blast
next
  case (Alt a b)
  then show ?case by auto
next
  case (Opt a)
  then show ?case by (auto intro: exI[of _ 0])
next
  case (Rep greedy m p)
  have "length (takeWhile p s) \<le> length s" by (rule length_takeWhile_le)
  with Rep show ?case by (auto simp: Let_def split: if_splits)
next
  case (Grp n a)
  then show ?case by auto
next
  case Bol
  then show ?case by (auto split: if_splits intro: exI[of _ 0])
next
  case Eol
  then show ?case by (auto split: if_splits intro: exI[of _ 0])
qed

lemma match_at_SomeD:
  assumes "match_at r i s = Some m"
  shows "m_start m = i \<and> (\<exists>k. m_end m = i + k \<and> k \<le> length s \<and> m_text m = take k s)"
proof -
  from assms obtain j t g rest where ms: "ms r (i, s, Map.empty) = (j, t, g) # rest"
    and m: "m = \<lparr>m_start = i, m_end = j, m_text = take (j - i) s, m_groups = g\<rparr>"
    by (auto simp: match_at_def split: list.splits)
  from ms have "(j, t, g) \<in> set (ms r (i, s, Map.empty))" by simp
  from ms_consumes[OF this] m show ?thesis by auto
qed

section \<open>The matches of a scan, from left to right\<close>

lemma scan_bounds:
  "m \<in> set (scan r i s) \<Longrightarrow> i \<le> m_start m \<and> m_start m \<le> m_end m \<and> m_end m \<le> i + length s"
proof (induction r i s rule: scan.induct)
  case (1 r i)
  then have "match_at r i [] = Some m" by (auto split: option.splits)
  from match_at_SomeD[OF this] show ?case by auto
next
  case (2 r i x xs)
  show ?case
  proof (cases "match_at r i (x # xs)")
    case None
    with 2 show ?thesis by auto
  next
    case (Some m')
    note d = match_at_SomeD[OF Some]
    show ?thesis
    proof (cases "m = m'")
      case True
      with d show ?thesis by auto
    next
      case False
      show ?thesis
      proof (cases "m_end m' \<le> i")
        case True
        with 2 Some False show ?thesis by auto
      next
        case no: False
        with 2(3)[OF Some no] 2(4) Some False d show ?thesis by auto
      qed
    qed
  qed
qed

lemma scan_sorted: "sorted_wrt (\<lambda>a b. m_end a \<le> m_start b) (scan r i s)"
proof (induction r i s rule: scan.induct)
  case (1 r i)
  then show ?case by (auto split: option.splits)
next
  case (2 r i x xs)
  show ?case
  proof (cases "match_at r i (x # xs)")
    case None
    with 2 show ?thesis by auto
  next
    case (Some m')
    note d = match_at_SomeD[OF Some]
    show ?thesis
    proof (cases "m_end m' \<le> i")
      case True
      have "\<forall>b\<in>set (scan r (Suc i) xs). m_end m' \<le> m_start b"
        using scan_bounds[of _ r "Suc i" xs] True by fastforce
      with 2(2)[OF Some True] Some True show ?thesis by simp
    next
      case no: False
      have "\<forall>b\<in>set (scan r (m_end m') (drop (m_end m' - i) (x # xs))). m_end m' \<le> m_start b"
        using scan_bounds[of _ r "m_end m'" "drop (m_end m' - i) (x # xs)"] by fastforce
      with 2(3)[OF Some no] Some no show ?thesis by simp
    qed
  qed
qed

section \<open>Searching a literal\<close>

lemma match_at_Lit:
  "match_at (Lit w) i s =
     (if take (length w) s = w
      then Some \<lparr>m_start = i, m_end = i + length w, m_text = w, m_groups = Map.empty\<rparr>
      else None)"
  by (simp add: match_at_def)

lemma search_from_Lit:
  "search_from (Lit w) i s = Some m \<Longrightarrow>
     \<exists>k. m_start m = i + k \<and> m_end m = i + k + length w \<and> take (length w) (drop k s) = w
        \<and> (\<forall>k'<k. take (length w) (drop k' s) \<noteq> w)"
proof (induction s arbitrary: i)
  case Nil
  then show ?case by (auto simp: match_at_Lit split: if_splits)
next
  case (Cons x xs)
  show ?case
  proof (cases "take (length w) (x # xs) = w")
    case True
    with Cons.prems have "m_start m = i + 0 \<and> m_end m = i + 0 + length w"
      by (auto simp: match_at_Lit)
    with True show ?thesis by (intro exI[of _ 0]) simp
  next
    case False
    with Cons.prems have "search_from (Lit w) (Suc i) xs = Some m"
      by (simp add: match_at_Lit)
    from Cons.IH[OF this] obtain k where k: "m_start m = Suc i + k"
      "m_end m = Suc i + k + length w" "take (length w) (drop k xs) = w"
      "\<forall>k'<k. take (length w) (drop k' xs) \<noteq> w" by blast
    have "\<forall>k'<Suc k. take (length w) (drop k' (x # xs)) \<noteq> w"
    proof (intro allI impI)
      fix k' assume "k' < Suc k"
      then show "take (length w) (drop k' (x # xs)) \<noteq> w"
        using False k(4) by (cases k') auto
    qed
    with k show ?thesis by (intro exI[of _ "Suc k"]) simp
  qed
qed

section \<open>Spans\<close>

lemma Ingredient_parse_span:
  assumes "Ingredient_parse L m idx stps acc = Inr i"
  shows "span_ok stps (acc @ [i]) (length acc)"
proof -
  let ?last = "last_ingr_index idx acc"
  from assms obtain lm q where idx: "idx < length stps"
    and s: "re_search (Lit (name i)) (drop ?last (stps ! idx)) = Some lm"
    and loc: "location i = (idx, m_start lm + ?last, m_end lm + ?last)"
    by (auto simp: Ingredient_parse_def Let_def split: list.splits if_splits option.splits sum.splits)
  from search_from_Lit[OF s[unfolded re_search_def]] obtain k where
    k: "m_start lm = k" "m_end lm = k + length (name i)"
       "take (length (name i)) (drop k (drop ?last (stps ! idx))) = name i"
       "\<forall>k'<k. take (length (name i)) (drop k' (drop ?last (stps ! idx))) \<noteq> name i"
    by auto
  have before: "take (length (name i)) (drop p (stps ! idx)) \<noteq> name i"
    if "?last \<le> p" "p < k + ?last" for p
  proof -
    from that have "p - ?last < k" "p = (p - ?last) + ?last" by auto
    with k(4) show ?thesis by (metis drop_drop)
  qed
  show ?thesis
    using idx loc k(1,2,3) before
    by (simp add: span_ok_def Let_def add.commute)
qed

lemma span_ok_append:
  "b < length acc \<Longrightarrow> span_ok stps (acc @ xs) b = span_ok stps acc b"
  by (simp add: span_ok_def nth_append)

lemma parse_matches_spans:
  "parse_matches L idx stps mts acc = Inr acc' \<Longrightarrow> \<forall>b<length acc. span_ok stps acc b
     \<Longrightarrow> \<forall>b<length acc'. span_ok stps acc' b"
proof (induction mts arbitrary: acc)
  case Nil
  then show ?case by simp
next
  case (Cons m mts)
  from Cons.prems(1) obtain i where i: "Ingredient_parse L m idx stps acc = Inr i"
    and run: "parse_matches L idx stps mts (acc @ [i]) = Inr acc'"
    by (auto split: sum.splits)
  have "\<forall>b<length (acc @ [i]). span_ok stps (acc @ [i]) b"
  proof (intro allI impI)
    fix b assume "b < length (acc @ [i])"
    then consider "b < length acc" | "b = length acc" by fastforce
    then show "span_ok stps (acc @ [i]) b"
      using Cons.prems(2) Ingredient_parse_span[OF i] by cases (simp_all add: span_ok_append)
  qed
  from Cons.IH[OF run this] show ?case .
qed

lemma parse_ingredients_spans:
  "parse_ingredients L stps steps_left acc = Inr acc' \<Longrightarrow> \<forall>b<length acc. span_ok stps acc b
     \<Longrightarrow> \<forall>b<length acc'. span_ok stps acc' b"
proof (induction steps_left arbitrary: acc)
  case Nil
  then show ?case by simp
next
  case (Cons p steps_left)
  obtain idx raw_step where p: "p = (idx, raw_step)" by (cases p)
  from Cons.prems(1) p obtain acc1 where
    one: "parse_matches L idx stps (finditer ingr_pat raw_step) acc = Inr acc1"
    and run: "parse_ingredients L stps steps_left acc1 = Inr acc'"
    by (auto split: sum.splits)
  from Cons.IH[OF run parse_matches_spans[OF one Cons.prems(2)]] show ?case .
qed

lemma last_filter_index:
  "filter P xs \<noteq> [] \<Longrightarrow>
     \<exists>c<length xs. last (filter P xs) = xs ! c \<and> P (xs ! c) \<and> (\<forall>a<length xs. P (xs ! a) \<longrightarrow> a \<le> c)"
proof (induction xs rule: rev_induct)
  case Nil
  then show ?case by simp
next
  case (snoc x xs)
  show ?case
  proof (cases "P x")
    case True
    then show ?thesis
      by (intro exI[of _ "length xs"]) (auto simp: nth_append)
  next
    case False
    with snoc.prems have "filter P xs \<noteq> []" by simp
    from snoc.IH[OF this] obtain c where c: "c < length xs" "last (filter P xs) = xs ! c"
      "P (xs ! c)" "\<forall>a<length xs. P (xs ! a) \<longrightarrow> a \<le> c" by blast
    have "\<forall>a<length (xs @ [x]). P ((xs @ [x]) ! a) \<longrightarrow> a \<le> c"
      using c(4) False by (auto simp: nth_append)
    with c False show ?thesis
      by (intro exI[of _ c]) (auto simp: nth_append)
  qed
qed

lemma spans_disjoint:
  assumes all: "\<forall>b<length mens. span_ok stps mens b"
  shows "b < length mens \<Longrightarrow> a < b
     \<Longrightarrow> fst (location (mens ! a)) = fst (location (mens ! b))
     \<Longrightarrow> snd (snd (location (mens ! a))) \<le> fst (snd (location (mens ! b)))"
proof (induction b arbitrary: a rule: less_induct)
  case (less b)
  let ?t = "fst (location (mens ! b))"
  let ?P = "\<lambda>i. fst (location i) = ?t"
  have "mens ! a \<in> set (take b mens)"
    using less.prems by (metis in_set_conv_nth length_take min.absorb2 nat_less_le nth_take)
  then have ne: "filter ?P (take b mens) \<noteq> []"
    using less.prems(3) by (auto simp: filter_empty_conv)
  from last_filter_index[OF ne] obtain c where c: "c < b"
    "last (filter ?P (take b mens)) = mens ! c" "?P (mens ! c)"
    "\<forall>a'<b. ?P (mens ! a') \<longrightarrow> a' \<le> c"
    using less.prems(1) by auto
  have prev: "last_ingr_index ?t (take b mens) = snd (snd (location (mens ! c)))"
    using ne c(2) by (simp add: last_ingr_index_def Let_def)
  have sb: "span_ok stps mens b" using all less.prems(1) by blast
  then have cb: "snd (snd (location (mens ! c))) \<le> fst (snd (location (mens ! b)))"
    using prev by (simp add: span_ok_def Let_def)
  have "a \<le> c" using c(4) less.prems by auto
  show ?case
  proof (cases "a = c")
    case True
    with cb show ?thesis by simp
  next
    case False
    with \<open>a \<le> c\<close> have ac: "a < c" by simp
    have "c < length mens" using c(1) less.prems(1) by simp
    have "snd (snd (location (mens ! a))) \<le> fst (snd (location (mens ! c)))"
      using less.IH[OF c(1) \<open>c < length mens\<close> ac] less.prems(3) c(3) by simp
    moreover have "fst (snd (location (mens ! c))) \<le> snd (snd (location (mens ! c)))"
      using all \<open>c < length mens\<close> by (auto simp: span_ok_def Let_def)
    ultimately show ?thesis using cb by linarith
  qed
qed

text \<open>
  C9.  When the mentions of the step lines are resolved, two mentions on the same step line
  do not overlap: the later one starts at or after the end of the earlier one.  The span of a
  mention holds its name in the rendered line, and it is the first occurrence of the name that
  starts at or after the end of the previous mention on that line (0 when there is none).
\<close>

theorem ingredient_spans_disjoint:
  assumes "raw_mentions L raw_steps = Inr mens"
  shows "(\<forall>b<length mens. \<forall>a<b. fst (location (mens ! a)) = fst (location (mens ! b))
            \<longrightarrow> snd (snd (location (mens ! a))) \<le> fst (snd (location (mens ! b))))
       \<and> (\<forall>b<length mens. span_ok (map render_step raw_steps) mens b)"
proof -
  have all: "\<forall>b<length mens. span_ok (map render_step raw_steps) mens b"
    using parse_ingredients_spans[OF assms[unfolded raw_mentions_def]] by simp
  then show ?thesis using spans_disjoint[OF all] by blast
qed

text \<open>
  C9 on a line that mentions salt twice.
\<close>

theorem ingredient_spans_disjoint_witness:
  "\<exists>mens. raw_mentions no_floats [''Add @salt and more @salt''] = Inr mens
      \<and> map location mens = [(0, 4, 8), (0, 18, 22)]
      \<and> snd (snd (location (mens ! 0))) \<le> fst (snd (location (mens ! 1)))
      \<and> span_ok (map render_step [''Add @salt and more @salt'']) mens 1"
proof -
  let ?mens = "[\<lparr>name = ''salt'', location = (0, 4, 8), quantity = None\<rparr>,
                \<lparr>name = ''salt'', location = (0, 18, 22), quantity = None :: unit Quantity option\<rparr>]"
  have m: "raw_mentions no_floats [''Add @salt and more @salt''] = Inr ?mens"
    by (simp add: model_defs)
  from ingredient_spans_disjoint[OF m] have
    "snd (snd (location (?mens ! 0))) \<le> fst (snd (location (?mens ! 1)))"
    "span_ok (map render_step [''Add @salt and more @salt'']) ?mens 1"
    by auto
  with m show ?thesis by (intro exI[of _ ?mens]) simp
qed

section \<open>Cookware and timers\<close>

lemma collect_InrD: "collect xs = Inr ys \<Longrightarrow> map Inr ys = xs"
  by (induction xs arbitrary: ys) (auto split: sum.splits)

lemma collect_concat:
  assumes "collect (map (\<lambda>s. collect (f s)) xs) = Inr ts"
  shows "map Inr (concat ts) = concat (map f xs)"
  using assms
proof (induction xs arbitrary: ts)
  case Nil
  then show ?case by simp
next
  case (Cons x xs)
  then show ?case by (auto split: sum.splits dest: collect_InrD)
qed

text \<open>
  C8.  When the parse succeeds, the cookware of the recipe is the cookware of the first step
  line, followed by that of the second, and so on, one entry for each match of the cookware
  pattern, from left to right; likewise the timers are the parsed matches of the timer
  pattern, step line after step line.  Nothing is merged: there are as many entries as matches.
\<close>

theorem cookware_and_timers_not_deduplicated:
  assumes "parse L raw = Inr r"
  shows "cookware r = concat (map step_cookware (raw_steps_of (raw_paragraphs raw)))
       \<and> map Inr (timers r) = concat (map (\<lambda>s. map (Timer_parse L) (findall0 timer_re s))
                                        (raw_steps_of (raw_paragraphs raw)))
       \<and> length (cookware r) =
           sum_list (map (\<lambda>s. length (finditer cookware_re s)) (raw_steps_of (raw_paragraphs raw)))
       \<and> length (timers r) =
           sum_list (map (\<lambda>s. length (finditer timer_re s)) (raw_steps_of (raw_paragraphs raw)))
       \<and> (\<forall>s. sorted_wrt (\<lambda>a b. m_end a \<le> m_start b) (finditer cookware_re s)
              \<and> sorted_wrt (\<lambda>a b. m_end a \<le> m_start b) (finditer timer_re s))"
proof -
  let ?steps = "raw_steps_of (raw_paragraphs raw)"
  from assms obtain ts where ts: "collect (map (step_timers L) ?steps) = Inr ts"
    and cw: "cookware r = concat (map step_cookware ?steps)" and tm: "timers r = concat ts"
    unfolding parse_def by (blast dest: parse_paragraphs_InrD)
  have t: "map Inr (timers r) = concat (map (\<lambda>s. map (Timer_parse L) (findall0 timer_re s)) ?steps)"
    using collect_concat[of "\<lambda>s. map (Timer_parse L) (findall0 timer_re s)" ?steps ts] ts tm
    by (simp add: step_timers_def[abs_def])
  have lc: "length (cookware r) = sum_list (map (\<lambda>s. length (finditer cookware_re s)) ?steps)"
    unfolding cw by (simp add: length_concat step_cookware_def comp_def)
  have "length (map Inr (timers r) :: (error + 'a Timer) list) =
          sum_list (map (\<lambda>s. length (finditer timer_re s)) ?steps)"
    unfolding t by (simp add: length_concat findall0_def comp_def)
  then have lt: "length (timers r) = sum_list (map (\<lambda>s. length (finditer timer_re s)) ?steps)"
    by simp
  show ?thesis using cw t lc lt by (simp add: finditer_def scan_sorted)
qed

text \<open>
  C8 on a line that names the pan twice and two equal timers.
\<close>

theorem cookware_and_timers_not_deduplicated_witness:
  "\<exists>r. parse no_floats ''Heat the #pan for ~{1%min} then wash the #pan for ~{1%min}'' = Inr r
     \<and> cookware r = [''pan'', ''pan'']
     \<and> map t_name (timers r) = ['''', '''']
     \<and> length (cookware r) = sum_list (map (\<lambda>s. length (finditer cookware_re s))
          (raw_steps_of (raw_paragraphs ''Heat the #pan for ~{1%min} then wash the #pan for ~{1%min}'')))"
proof -
  let ?raw = "''Heat the #pan for ~{1%min} then wash the #pan for ~{1%min}''"
  let ?t = "\<lparr>t_name = [], t_quantity = Some \<lparr>amount = IntA 1, unit = Some ''min''\<rparr>\<rparr> :: unit Timer"
  let ?r = "\<lparr>metadata = [], ingredients = [],
      steps = [''Heat the pan for 1 min then wash the pan for 1 min''],
      cookware = [''pan'', ''pan''], timers = [?t, ?t]\<rparr>"
  have p: "parse no_floats ?raw = Inr ?r"
    by (simp add: model_defs)
  have "length (cookware ?r) = sum_list (map (\<lambda>s. length (finditer cookware_re s))
          (raw_steps_of (raw_paragraphs ?raw)))"
    using cookware_and_timers_not_deduplicated[OF p, THEN conjunct2, THEN conjunct2, THEN conjunct1] .
  then show ?thesis using p by (intro exI[of _ ?r]) simp
qed

text \<open>
  C10 on a metadata line that holds an ingredient with a malformed amount, a cookware and a
  timer.
\<close>

theorem metadata_lines_contribute_nothing_witness:
  "map_sum id step_fields
      (parse no_floats (''>> source: @salt{abc} #pan ~{x}'' @ [NL] @ ''Add @pepper''))
     = map_sum id step_fields (parse no_floats ''Add @pepper'')
   \<and> map_sum id step_fields
      (parse no_floats (''>> source: @salt{abc} #pan ~{x}'' @ [NL] @ ''Add @pepper''))
     = Inr ([\<lparr>name = ''pepper'', location = (0, 4, 10), quantity = None\<rparr>],
            [''Add pepper''], [], [])
   \<and> startswith ''>>'' ''>> source: @salt{abc} #pan ~{x}''"
proof -
  let ?raw1 = "''>> source: @salt{abc} #pan ~{x}'' @ [NL] @ ''Add @pepper''"
  let ?raw2 = "''Add @pepper''"
  have a: "raw_steps_of (raw_paragraphs ?raw1) = [''Add @pepper'']"
    by (simp add: model_defs)
  have b: "raw_steps_of (raw_paragraphs ?raw2) = [''Add @pepper'']"
    by (simp add: model_defs)
  have same: "map_sum id step_fields (parse no_floats ?raw1)
                = map_sum id step_fields (parse no_floats ?raw2)"
    using metadata_lines_contribute_nothing[where L = no_floats and ?raw1.0 = ?raw1 and ?raw2.0 = ?raw2] a b
    by simp
  have c: "map_sum id step_fields (parse no_floats ?raw2)
             = Inr ([\<lparr>name = ''pepper'', location = (0, 4, 10), quantity = None\<rparr>],
                    [''Add pepper''], [], [])"
    by (simp add: model_defs step_fields_def)
  have d: "startswith ''>>'' ''>> source: @salt{abc} #pan ~{x}''"
    by (simp add: startswith_def)
  from same c d show ?thesis by simp
qed

text \<open>
  C5.  Adding two quantities fails exactly when their units differ (two missing units are
  equal) or their amounts are not of the same numeric type; otherwise the sum has the unit of
  both, integers and fractions are added exactly, and the sum of two floats is rounded to one
  digit.  When two mentions of one ingredient carry quantities that cannot be added, the whole
  parse fails.
\<close>

theorem quantity_addition_compatibility:
  "(unit a \<noteq> unit b \<longrightarrow> Quantity_add L a b = Inl (IncompatibleUnits (unit a) (unit b)))
   \<and> (unit a = unit b \<and> type_of (amount a) \<noteq> type_of (amount b) \<longrightarrow>
        Quantity_add L a b = Inl (IncompatibleTypes (type_of (amount a)) (type_of (amount b))))
   \<and> ((\<exists>e. Quantity_add L a b = Inl e) \<longleftrightarrow>
        (unit a \<noteq> unit b \<or> type_of (amount a) \<noteq> type_of (amount b)))
   \<and> Quantity_add L \<lparr>amount = IntA x, unit = u\<rparr> \<lparr>amount = IntA y, unit = u\<rparr>
        = Inr \<lparr>amount = IntA (x + y), unit = u\<rparr>
   \<and> Quantity_add L \<lparr>amount = FracA p, unit = u\<rparr> \<lparr>amount = FracA q, unit = u\<rparr>
        = Inr \<lparr>amount = FracA (p + q), unit = u\<rparr>
   \<and> Quantity_add L \<lparr>amount = FloatA f1, unit = u\<rparr> \<lparr>amount = FloatA f2, unit = u\<rparr>
        = Inr \<lparr>amount = FloatA (float_round1 L (float_add L f1 f2)), unit = u\<rparr>
   \<and> (raw_mentions L (raw_steps_of (raw_paragraphs raw)) = Inr mens
        \<and> i \<in> set mens \<and> j \<in> set mens \<and> name i = name j
        \<and> quantity i = Some qi \<and> quantity j = Some qj
        \<and> (\<exists>e. Quantity_add L qi qj = Inl e)
      \<longrightarrow> (\<exists>e. parse L raw = Inl e))"
proof -
  have propagation: "\<exists>e. parse L raw = Inl e"
    if m: "raw_mentions L (raw_steps_of (raw_paragraphs raw)) = Inr mens"
      and ij: "i \<in> set mens" "j \<in> set mens" "name i = name j"
      and q: "quantity i = Some qi" "quantity j = Some qj"
      and bad: "\<exists>e. Quantity_add L qi qj = Inl e"
  proof (cases "parse L raw")
    case (Inl e)
    then show ?thesis by blast
  next
    case (Inr r)
    then obtain mens' where "raw_mentions L (raw_steps_of (raw_paragraphs raw)) = Inr mens'"
      and "remove_duplicates L mens' = Inr (ingredients r)"
      unfolding parse_def by (blast dest: parse_paragraphs_InrD)
    with m have "remove_duplicates L mens = Inr (ingredients r)" by simp
    from remove_duplicates_compatible[OF this ij q] bad show ?thesis
      by (simp add: Quantity_add_fails_iff)
  qed
  show ?thesis using propagation by (auto simp: Quantity_add_def)
qed

text \<open>
  C5 on grams and cups of salt.
\<close>

theorem quantity_addition_compatibility_witness:
  "Quantity_add no_floats \<lparr>amount = IntA 1, unit = Some ''grams''\<rparr>
       \<lparr>amount = IntA 1, unit = Some ''cups''\<rparr>
     = Inl (IncompatibleUnits (Some ''grams'') (Some ''cups''))
   \<and> raw_mentions no_floats (raw_steps_of (raw_paragraphs ''Add @salt{1%grams} and @salt{1%cups}''))
     = Inr [\<lparr>name = ''salt'', location = (0, 4, 8),
               quantity = Some \<lparr>amount = IntA 1, unit = Some ''grams''\<rparr>\<rparr>,
            \<lparr>name = ''salt'', location = (0, 13, 17),
               quantity = Some \<lparr>amount = IntA 1, unit = Some ''cups''\<rparr>\<rparr>]
   \<and> (\<exists>e. parse no_floats ''Add @salt{1%grams} and @salt{1%cups}'' = Inl e)"
proof -
  let ?a = "\<lparr>amount = IntA 1, unit = Some ''grams''\<rparr> :: unit Quantity"
  let ?b = "\<lparr>amount = IntA 1, unit = Some ''cups''\<rparr> :: unit Quantity"
  let ?i = "\<lparr>name = ''salt'', location = (0, 4, 8), quantity = Some ?a\<rparr>"
  let ?j = "\<lparr>name = ''salt'', location = (0, 13, 17), quantity = Some ?b\<rparr>"
  let ?raw = "''Add @salt{1%grams} and @salt{1%cups}''"
  note t = quantity_addition_compatibility[where a = ?a and b = ?b and L = no_floats
      and raw = ?raw and mens = "[?i, ?j]" and i = ?i and j = ?j and qi = ?a and qj = ?b]
  have m: "raw_mentions no_floats (raw_steps_of (raw_paragraphs ?raw)) = Inr [?i, ?j]"
    by (simp add: model_defs)
  have one: "Quantity_add no_floats ?a ?b = Inl (IncompatibleUnits (Some ''grams'') (Some ''cups''))"
    using t by simp
  then have "\<exists>e. parse no_floats ?raw = Inl e"
    using t m by simp
  with one m show ?thesis by simp
qed

text \<open>
  C6.  The annotation \<open>@salt{%grams}\<close> has an empty amount before the percent sign.  The
  pattern of the quantity is searched anywhere in the text between the braces, so it takes the
  unit for the amount and the parse fails on \<open>int("grams")\<close>, although \<open>_get_quantity\<close> returns
  no quantity for an empty amount text.
\<close>

theorem empty_amount_with_unit_rejected:
  "parse L ''Add @salt{%grams}'' = Inl (MalformedQuantity ''grams'')
   \<and> get_quantity L [([], ''grams'')] = Inr None"
  by (simp add: model_defs)

text \<open>
  C1.  Parsing \<open>Cook the @pasta for ~{10%minutes}\<close> gives the single step
  \<open>Cook the pasta for 10 minutes\<close>, the single ingredient \<open>pasta\<close> at (0, 9, 14) without a
  quantity, and the single timer with the empty name and the quantity 10 (an integer) minutes;
  there is no cookware and no metadata.
\<close>

theorem parse_pasta_timer:
  "parse L ''Cook the @pasta for ~{10%minutes}'' =
     Inr \<lparr>metadata = [],
          ingredients = [\<lparr>name = ''pasta'', location = (0, 9, 14), quantity = None\<rparr>],
          steps = [''Cook the pasta for 10 minutes''],
          cookware = [],
          timers = [\<lparr>t_name = [],
                     t_quantity = Some \<lparr>amount = IntA 10, unit = Some ''minutes''\<rparr>\<rparr>]\<rparr>"
  by (simp add: model_defs)

end
